theory Spec2Isabelle
  imports Complex_Main "HOL-Library.Multiset" "HOL-Library.Char_ord"
    "HOL-Library.List_Lexorder" "HOL-Library.Option_ord" "HOL-Library.Product_Lexorder"
begin

section \<open>Data model\<close>

text \<open>
  One row of the log table that \<^verbatim>\<open>load_logs\<close> hands to \<^verbatim>\<open>process_work_chunks\<close>.
  \<^item> \<open>User\<close> is the cell of column \<^verbatim>\<open>User\<close>: \<open>None\<close> is pandas' NaN (a missing cell),
    \<open>Some ''''\<close> the empty string.
  \<^item> \<open>DateTime\<close> is the value \<^verbatim>\<open>pd.to_datetime(..., format='%Y-%m-%d %H:%M:%S')\<close> computes
    for the cell of column \<^verbatim>\<open>Date/Time (UTC)\<close>, as whole seconds since the epoch (the
    format has no sub-second part). Rows whose cell does not parse make
    \<^verbatim>\<open>pd.to_datetime\<close> raise before any chunk is built; the model starts after that
    line, on well-formed instants.
  \<^item> \<open>source_file\<close> is the column \<^verbatim>\<open>_source_file\<close>; segmentation never reads it, but it
    makes two rows of one user with the same instant distinguishable.
\<close>

record log_row =
  User :: "string option"
  DateTime :: int
  source_file :: string

text \<open>
  One dictionary appended to \<^verbatim>\<open>chunks\<close>, with the source's keys. A \<^verbatim>\<open>timedelta\<close> is a
  number of seconds (\<open>int\<close>); the Python floats \<^verbatim>\<open>Duration (min)\<close>, \<^verbatim>\<open>Duration (hours)\<close>
  and \<^verbatim>\<open>Gap to Next\<close> are exact rationals here, so floating-point error is outside
  the model. \<^verbatim>\<open>Gap to Next\<close> is in minutes, \<open>None\<close> is Python's \<^verbatim>\<open>None\<close>.
\<close>

record chunk =
  Developer :: string
  Start :: int
  End :: int
  Duration_min :: rat
  Duration_hours :: rat
  Log_Count :: nat
  Gap_to_Next :: "rat option"

text \<open>
  \<^verbatim>\<open>pd.DataFrame(rows)\<close>: built from an empty list it has no columns at all, and every
  later access to a column by name raises \<^verbatim>\<open>KeyError\<close>; a frame that lost all its rows
  to a boolean mask keeps its columns.
\<close>

datatype 'a frame = NoColumns | Frame "'a list"

definition DataFrame :: "'a list \<Rightarrow> 'a frame" where
  "DataFrame xs = (if xs = [] then NoColumns else Frame xs)"

fun frame_rows :: "'a frame \<Rightarrow> 'a list" where
  "frame_rows NoColumns = []"
| "frame_rows (Frame xs) = xs"

datatype error = KeyError | SystemExit

section \<open>Segmentation: \<^verbatim>\<open>process_work_chunks\<close>\<close>

definition make_chunk :: "string \<Rightarrow> int \<Rightarrow> int \<Rightarrow> nat \<Rightarrow> rat option \<Rightarrow> chunk" where
  "make_chunk user chunk_start chunk_end chunk_logs_count gap =
     \<lparr>Developer = user, Start = chunk_start, End = chunk_end,
      Duration_min = of_int (chunk_end - chunk_start) / 60,
      Duration_hours = of_int (chunk_end - chunk_start) / 3600,
      Log_Count = chunk_logs_count, Gap_to_Next = gap\<rparr>"

text \<open>
  The inner loop over one user's rows (lines 181-230). The loop state is the open chunk:
  \<open>None\<close> while \<^verbatim>\<open>chunk_start is None\<close>, otherwise
  \<open>Some (chunk_start, chunk_end, chunk_logs_count)\<close>. The result is the list of
  dictionaries the loop appends to \<^verbatim>\<open>chunks\<close>, in the order of the appends; the equations
  for the empty list are the code after the loop (\<^verbatim>\<open>if chunk_start is not None\<close>).
\<close>

fun user_loop :: "string \<Rightarrow> int \<Rightarrow> (int \<times> int \<times> nat) option \<Rightarrow> log_row list \<Rightarrow> chunk list" where
  "user_loop user thr None [] = []"
| "user_loop user thr (Some (cs, ce, n)) [] = [make_chunk user cs ce n None]"
| "user_loop user thr None (row # rows) =
     user_loop user thr (Some (DateTime row, DateTime row, 1)) rows"
| "user_loop user thr (Some (cs, ce, n)) (row # rows) =
     (let current_time = DateTime row; time_diff = current_time - ce in
      if time_diff > thr
      then make_chunk user cs ce n (Some (of_int time_diff / 60))
             # user_loop user thr (Some (current_time, current_time, 1)) rows
      else user_loop user thr (Some (cs, current_time, n + 1)) rows)"

text \<open>\<^verbatim>\<open>df['User'].notna() & (df['User'] != '')\<close>\<close>

definition valid_user :: "log_row \<Rightarrow> bool" where
  "valid_user r = (User r \<noteq> None \<and> User r \<noteq> Some [])"

text \<open>
  \<^verbatim>\<open>df.groupby('User')\<close> iterates over the distinct non-missing keys in ascending order
  and hands each key the rows that carry it, in the order of the frame.
\<close>

definition groupby_keys :: "log_row list \<Rightarrow> string list" where
  "groupby_keys df = sort (remdups (List.map_filter User df))"

definition group_of :: "string \<Rightarrow> log_row list \<Rightarrow> log_row list" where
  "group_of user df = filter (\<lambda>r. User r = Some user) df"

text \<open>
  The list \<^verbatim>\<open>chunks\<close> at line 232. \<^verbatim>\<open>timedelta(minutes=inactivity_minutes)\<close> is
  \<open>60 * inactivity_minutes\<close> seconds; \<^verbatim>\<open>sort_values(['User', 'DateTime'])\<close> orders the
  rows by the pair of keys.
\<close>

definition chunks_list :: "log_row list \<Rightarrow> int \<Rightarrow> chunk list" where
  "chunks_list df inactivity_minutes =
     (let df1 = filter valid_user df;
          df2 = sort_key (\<lambda>r. (User r, DateTime r)) df1;
          inactivity_threshold = 60 * inactivity_minutes
      in concat (map (\<lambda>user. user_loop user inactivity_threshold None (group_of user df2))
                   (groupby_keys df2)))"

definition process_work_chunks :: "log_row list \<Rightarrow> int \<Rightarrow> chunk frame" where
  "process_work_chunks df inactivity_minutes = DataFrame (chunks_list df inactivity_minutes)"

section \<open>Aggregation: \<^verbatim>\<open>generate_summary\<close>\<close>

text \<open>
  \<^verbatim>\<open>DataFrame.round(2)\<close> on a float column is numpy's rounding: scale by 100, round to the
  nearest integer with halves going to the even neighbour, scale back. Integer columns
  are left as they are.
\<close>

definition rint :: "rat \<Rightarrow> int" where
  "rint x = (let f = \<lfloor>x\<rfloor>; d = x - of_int f in
             if d < 1 / 2 then f else if 1 / 2 < d then f + 1
             else if even f then f else f + 1)"

definition round2 :: "rat \<Rightarrow> rat" where
  "round2 x = of_int (rint (x * 100)) / 100"

text \<open>One row of the summary frame; \<open>Developer_key\<close> is its index label.\<close>

record summary_row =
  Developer_key :: string
  Duration_hours_sum :: rat
  Log_Count_sum :: nat
  Chunk_Count :: nat

text \<open>
  \<^verbatim>\<open>chunks_df.groupby('Developer').agg({'Duration (hours)': 'sum', 'Log Count': 'sum',
  'Start': 'count'}).rename(columns={'Start': 'Chunk Count'})\<close>: one row per distinct
  developer, the keys ascending.
\<close>

definition groupby_Developer :: "chunk list \<Rightarrow> summary_row list" where
  "groupby_Developer cs =
     map (\<lambda>d. let g = filter (\<lambda>c. Developer c = d) cs in
               \<lparr>Developer_key = d,
                Duration_hours_sum = sum_list (map Duration_hours g),
                Log_Count_sum = sum_list (map Log_Count g),
                Chunk_Count = length g\<rparr>)
         (sort (remdups (map Developer cs)))"

definition round_row :: "summary_row \<Rightarrow> summary_row" where
  "round_row r = r\<lparr>Duration_hours_sum := round2 (Duration_hours_sum r)\<rparr>"

text \<open>
  \<^verbatim>\<open>summary.sort_values('Duration (hours)', ascending=False)\<close> is a call into pandas with
  one sort key and the default \<^verbatim>\<open>kind='quicksort'\<close>, which pandas documents as not stable.
  The library routine is a parameter \<open>sort_values\<close> of the model; \<open>sorts_descending\<close> is
  its contract: the rows are permuted and the key column descends.
\<close>

definition sorts_descending :: "(summary_row list \<Rightarrow> summary_row list) \<Rightarrow> bool" where
  "sorts_descending sort_values =
     (\<forall>rows. mset (sort_values rows) = mset rows \<and>
             sorted_wrt (\<lambda>a b. Duration_hours_sum b \<le> Duration_hours_sum a) (sort_values rows))"

fun generate_summary ::
  "(summary_row list \<Rightarrow> summary_row list) \<Rightarrow> chunk frame \<Rightarrow> error + summary_row list" where
  "generate_summary sort_values NoColumns = Inl KeyError"
| "generate_summary sort_values (Frame cs) =
     Inr (sort_values (map round_row (groupby_Developer cs)))"

text \<open>
  Two routines that meet the contract: a stable one, which leaves rows of equal hours in
  the ascending key order \<open>groupby_Developer\<close> produced, and one that reverses them.
\<close>

definition stable_sort_values :: "summary_row list \<Rightarrow> summary_row list" where
  "stable_sort_values rows = rev (sort_key Duration_hours_sum (rev rows))"


section \<open>The minimum-hours filter and \<^verbatim>\<open>main\<close>\<close>

text \<open>
  Lines 511-524 of \<^verbatim>\<open>analyze_work_time.main\<close> (and lines 244-257 of \<^verbatim>\<open>app.main\<close>, the same
  statements). The result is the frame \<^verbatim>\<open>chunks_df\<close> after the statement and the number
  \<^verbatim>\<open>filtered_count\<close> of developers it dropped; when the guard \<^verbatim>\<open>min_hours > 0\<close> is false
  nothing is dropped and no count is computed, which is the 0 here.
\<close>

definition dev_hours :: "chunk list \<Rightarrow> string \<Rightarrow> rat" where
  "dev_hours cs d = sum_list (map Duration_hours (filter (\<lambda>c. Developer c = d) cs))"

definition nunique :: "chunk list \<Rightarrow> nat" where
  "nunique cs = length (remdups (map Developer cs))"

definition min_hours_filter :: "rat \<Rightarrow> chunk frame \<Rightarrow> error + chunk frame \<times> nat" where
  "min_hours_filter min_hours chunks_df =
     (if min_hours > 0 then
        (case chunks_df of
           NoColumns \<Rightarrow> Inl KeyError
         | Frame cs \<Rightarrow>
             let valid_developers =
                   filter (\<lambda>d. dev_hours cs d \<ge> min_hours) (sort (remdups (map Developer cs)));
                 filtered = filter (\<lambda>c. Developer c \<in> set valid_developers) cs
             in Inr (Frame filtered, nunique cs - nunique filtered))
      else Inr (chunks_df, 0))"

text \<open>
  The command line as \<^verbatim>\<open>parse_arguments\<close> returns it: \<^verbatim>\<open>--inactivity\<close> is any
  \<^verbatim>\<open>int\<close>, \<^verbatim>\<open>--min-hours\<close> any \<^verbatim>\<open>float\<close>; the options that only select outputs are left out.
\<close>

record args =
  inactivity :: int
  min_hours :: rat


section \<open>Period pivots: the tables of \<^verbatim>\<open>export_excel\<close>\<close>

text \<open>
  Lines 356-407 of \<^verbatim>\<open>export_excel\<close> (and the same statements in
  \<^verbatim>\<open>app.create_excel_download\<close>) build two tables from the chunks, one by day and one by
  week, with the same steps: group the chunks by period and developer and sum, round,
  pivot with the developers as columns, round, append a total column and a total row.

  One row of the grouped frame (\<^verbatim>\<open>pivot_by_day\<close>, \<^verbatim>\<open>pivot_by_week\<close>): \<open>group_key\<close> is the
  value of the period columns the frame was grouped by.
\<close>

record 'g period_row =
  group_key :: 'g
  developer :: string
  period_hours :: rat
  period_logs :: nat
  period_chunks :: nat

text \<open>
  \<^verbatim>\<open>groupby([<period columns>, 'Developer']).agg({'Duration (hours)': 'sum',
  'Log Count': 'sum', 'Start': 'count'}).reset_index()\<close>, where the period columns are
  computed from \<^verbatim>\<open>Start\<close> by \<open>period\<close>: one row per distinct pair, the pairs ascending.
\<close>

definition groupby_period :: "(int \<Rightarrow> 'g::linorder) \<Rightarrow> chunk list \<Rightarrow> 'g period_row list" where
  "groupby_period period cs =
     map (\<lambda>(p, d). let g = filter (\<lambda>c. period (Start c) = p \<and> Developer c = d) cs in
                   \<lparr>group_key = p, developer = d,
                    period_hours = sum_list (map Duration_hours g),
                    period_logs = sum_list (map Log_Count g),
                    period_chunks = length g\<rparr>)
         (sort (remdups (map (\<lambda>c. (period (Start c), Developer c)) cs)))"

definition round_period_row :: "'g period_row \<Rightarrow> 'g period_row" where
  "round_period_row r = r\<lparr>period_hours := round2 (period_hours r)\<rparr>"

text \<open>
  A pivot frame: the row labels, the column labels and the value at a row and a column
  (read only at labels of the frame).
\<close>

record 'p pivot =
  index :: "'p list"
  columns :: "string list"
  cell :: "'p \<Rightarrow> string \<Rightarrow> rat"

text \<open>
  \<^verbatim>\<open>rows.pivot_table(index=<period column>, columns='Developer',
  values='Duration (hours)', aggfunc='sum', fill_value=0).round(2)\<close>. \<open>idx\<close> selects the
  index column from the group key. A pair without rows gets \<^verbatim>\<open>fill_value\<close>, which is
  also the sum of no rows.
\<close>

definition pivot_table :: "('g \<Rightarrow> 'p::linorder) \<Rightarrow> 'g period_row list \<Rightarrow> 'p pivot" where
  "pivot_table idx rows =
     \<lparr>index = sort (remdups (map (\<lambda>r. idx (group_key r)) rows)),
      columns = sort (remdups (map developer rows)),
      cell = (\<lambda>p d. round2 (sum_list (map period_hours
                (filter (\<lambda>r. idx (group_key r) = p \<and> developer r = d) rows))))\<rparr>"

text \<open>
  \<^verbatim>\<open>pivot_table['TOTAL'] = pivot_table.sum(axis=1).round(2)\<close>: the sum runs over the
  columns the frame has before the assignment; the assignment appends the column, or
  overwrites the column of a developer who is called \<^verbatim>\<open>TOTAL\<close>.
\<close>

definition add_total_column :: "'p pivot \<Rightarrow> 'p pivot" where
  "add_total_column t =
     \<lparr>index = index t,
      columns = (if ''TOTAL'' \<in> set (columns t) then columns t else columns t @ [''TOTAL'']),
      cell = (\<lambda>p c. if c = ''TOTAL'' then round2 (sum_list (map (cell t p) (columns t)))
                     else cell t p c)\<rparr>"

text \<open>
  \<^verbatim>\<open>pivot_table.loc['TOTAL'] = pivot_table.sum(axis=0).round(2)\<close>: a new last row (no
  period label is the string \<^verbatim>\<open>TOTAL\<close>) with the sum of each column, the total column
  included.
\<close>

datatype 'p label = Key 'p | TOTAL

definition add_total_row :: "'p pivot \<Rightarrow> 'p label pivot" where
  "add_total_row t =
     \<lparr>index = map Key (index t) @ [TOTAL],
      columns = columns t,
      cell = (\<lambda>l c. case l of Key p \<Rightarrow> cell t p c
                     | TOTAL \<Rightarrow> round2 (sum_list (map (\<lambda>p. cell t p c) (index t))))\<rparr>"

text \<open>
  The day table. \<^verbatim>\<open>Start.dt.date\<close> is the day number of the instant;
  \<^verbatim>\<open>sort_values(['Date', 'Developer'])\<close> orders rows whose key pairs are distinct.
\<close>

definition date :: "int \<Rightarrow> int" where
  "date t = t div 86400"

definition pivot_by_day :: "chunk list \<Rightarrow> int period_row list" where
  "pivot_by_day cs =
     sort_key (\<lambda>r. (group_key r, developer r)) (map round_period_row (groupby_period date cs))"

definition pivot_table_day :: "chunk list \<Rightarrow> int label pivot" where
  "pivot_table_day cs = add_total_row (add_total_column (pivot_table id (pivot_by_day cs)))"

text \<open>
  The week table is grouped by the two columns \<^verbatim>\<open>Week\<close> and \<^verbatim>\<open>Week_Start\<close> and pivoted on
  \<^verbatim>\<open>Week_Start\<close>. \<^verbatim>\<open>Week_Start\<close> is the Monday that begins the week of the instant
  (\<^verbatim>\<open>to_period('W').dt.start_time\<close>), as a day number: day 0 is a Thursday. \<^verbatim>\<open>Week\<close> is
  the text \<^verbatim>\<open>strftime('%Y-W%U')\<close> prints; the library routine is the parameter \<open>week\<close>.
\<close>

definition week_start :: "int \<Rightarrow> int" where
  "week_start t = date t - (date t + 3) mod 7"

definition pivot_by_week :: "(int \<Rightarrow> string) \<Rightarrow> chunk list \<Rightarrow> (string \<times> int) period_row list" where
  "pivot_by_week week cs =
     map round_period_row (groupby_period (\<lambda>t. (week t, week_start t)) cs)"

definition pivot_table_week :: "(int \<Rightarrow> string) \<Rightarrow> chunk list \<Rightarrow> int label pivot" where
  "pivot_table_week week cs =
     add_total_row (add_total_column (pivot_table snd (pivot_by_week week cs)))"


section \<open>Properties of segmentation\<close>

subsection \<open>One user's chunks\<close>

lemma user_loop_Start:
  "map Start (user_loop u thr (Some (cs, ce, n)) rows) =
     cs # map snd (filter (\<lambda>(a, b). b - a > thr) (zip (ce # map DateTime rows) (map DateTime rows)))"
  by (induction rows arbitrary: cs ce n) (auto simp: make_chunk_def Let_def)

lemma user_loop_Developer: "c \<in> set (user_loop u thr st rows) \<Longrightarrow> Developer c = u"
  by (induction u thr st rows rule: user_loop.induct) (auto simp: make_chunk_def Let_def split: if_splits)

lemma concat_select:
  "distinct ks \<Longrightarrow> concat (map (\<lambda>k. if k = u then f k else []) ks) = (if u \<in> set ks then f u else [])"
  by (induction ks) auto

lemma filter_user_loop_same: "filter (\<lambda>c. Developer c = u) (user_loop u thr st rows) = user_loop u thr st rows"
  by (simp add: user_loop_Developer)

lemma filter_user_loop_other: "u' \<noteq> u \<Longrightarrow> filter (\<lambda>c. Developer c = u) (user_loop u' thr st rows) = []"
  by (auto simp: filter_empty_conv dest: user_loop_Developer)

lemma group_of_not_key: "u \<notin> set (groupby_keys df) \<Longrightarrow> group_of u df = []"
  by (auto simp: groupby_keys_def group_of_def filter_empty_conv List.map_filter_def image_iff)

lemma chunks_of_user:
  "filter (\<lambda>c. Developer c = u) (chunks_list df m) =
     user_loop u (60 * m) None (group_of u (sort_key (\<lambda>r. (User r, DateTime r)) (filter valid_user df)))"
proof -
  define df2 where "df2 = sort_key (\<lambda>r. (User r, DateTime r)) (filter valid_user df)"
  have d: "distinct (groupby_keys df2)" by (simp add: groupby_keys_def)
  have "filter (\<lambda>c. Developer c = u) (chunks_list df m) =
        concat (map (\<lambda>k. if k = u then user_loop k (60 * m) None (group_of k df2) else []) (groupby_keys df2))"
    unfolding chunks_list_def Let_def df2_def[symmetric] filter_concat map_map comp_def
    by (rule arg_cong[where f=concat], rule map_cong) (auto simp: filter_user_loop_same filter_user_loop_other)
  also have "\<dots> = (if u \<in> set (groupby_keys df2) then user_loop u (60 * m) None (group_of u df2) else [])"
    using d by (rule concat_select)
  also have "\<dots> = user_loop u (60 * m) None (group_of u df2)"
    by (simp add: group_of_not_key)
  finally show ?thesis by (simp add: df2_def)
qed

lemma sorted_map_pair_const:
  "sorted (map (\<lambda>r. (c, f r)) xs) \<Longrightarrow> sorted (map f xs)"
  by (induction xs) (auto simp: less_eq_prod_def)

lemma group_times:
  "map DateTime (group_of u (sort_key (\<lambda>r. (User r, DateTime r)) xs)) =
     sort (map DateTime (group_of u xs))"
proof -
  let ?k = "\<lambda>r. (User r, DateTime r)"
  let ?g = "group_of u (sort_key ?k xs)"
  have g: "?g = sort_key ?k (group_of u xs)"
    by (simp add: group_of_def filter_sort)
  have "sorted (map ?k ?g)" unfolding g by simp
  moreover have "map ?k ?g = map (\<lambda>r. (Some u, DateTime r)) ?g"
    by (rule map_cong) (auto simp: group_of_def)
  ultimately have s: "sorted (map DateTime ?g)"
    using sorted_map_pair_const[of "Some u" DateTime ?g] by simp
  have m: "mset (map DateTime ?g) = mset (map DateTime (group_of u xs))"
    unfolding g by simp
  show ?thesis using properties_for_sort[OF m s] by simp
qed

lemma group_of_valid: "u \<noteq> [] \<Longrightarrow> group_of u (filter valid_user df) = group_of u df"
  by (auto simp: group_of_def valid_user_def intro: filter_cong)

lemma user_loop_None_Start:
  "map Start (user_loop u thr None rows) =
     (case map DateTime rows of [] \<Rightarrow> []
      | t # ts \<Rightarrow> t # map snd (filter (\<lambda>(a, b). b - a > thr) (zip (t # ts) ts)))"
  by (cases rows) (simp_all add: user_loop_Start)

lemma only_small_gaps_one_chunk:
  "\<forall>(a, b) \<in> set (zip (ce # map DateTime rows) (map DateTime rows)). b - a \<le> thr \<Longrightarrow>
   length (user_loop u thr (Some (cs, ce, n)) rows) = 1"
  by (induction rows arbitrary: cs ce n) (auto simp: Let_def)

lemmas segmentation_eval = process_work_chunks_def chunks_list_def DataFrame_def valid_user_def
  groupby_keys_def group_of_def List.map_filter_def Let_def less_eq_prod_def less_prod_def
  make_chunk_def

subsection \<open>The strict comparison with the threshold\<close>

text \<open>
  Claim C1. Let \<open>ts\<close> be the instants of one owner's rows in ascending order. The owner's
  chunks start at the first instant and at exactly those later instants whose distance
  from the instant before is strictly greater than the threshold of
  \<open>60 * inactivity_minutes\<close> seconds: a new chunk is opened if and only if the gap
  exceeds the threshold. In particular, when every gap equals the threshold, all the
  owner's rows are merged into one chunk.
\<close>

theorem segmentation_strict_gap:
  assumes "u \<noteq> []"
  shows "let ts = sort (map DateTime (group_of u df));
             cs = filter (\<lambda>c. Developer c = u) (frame_rows (process_work_chunks df m))
         in map Start cs =
              (case ts of [] \<Rightarrow> []
               | t # _ \<Rightarrow> t # map snd (filter (\<lambda>(a, b). b - a > 60 * m) (zip ts (tl ts))))
            \<and> (ts \<noteq> [] \<and> (\<forall>(a, b) \<in> set (zip ts (tl ts)). b - a = 60 * m) \<longrightarrow> length cs = 1)"
proof -
  define ts where "ts = sort (map DateTime (group_of u df))"
  define cs where "cs = filter (\<lambda>c. Developer c = u) (frame_rows (process_work_chunks df m))"
  define rows where "rows = group_of u (sort_key (\<lambda>r. (User r, DateTime r)) (filter valid_user df))"
  have fr: "frame_rows (process_work_chunks df m) = chunks_list df m"
    by (simp add: process_work_chunks_def DataFrame_def)
  have cs: "cs = user_loop u (60 * m) None rows"
    unfolding cs_def rows_def fr by (rule chunks_of_user)
  have ts: "map DateTime rows = ts"
    unfolding rows_def ts_def using assms by (simp add: group_times group_of_valid)
  have starts: "map Start cs =
      (case ts of [] \<Rightarrow> []
       | t # _ \<Rightarrow> t # map snd (filter (\<lambda>(a, b). b - a > 60 * m) (zip ts (tl ts))))"
    unfolding cs user_loop_None_Start ts by (cases ts) simp_all
  have one: "length cs = 1"
    if ne: "ts \<noteq> []" and eq: "\<forall>(a, b) \<in> set (zip ts (tl ts)). b - a = 60 * m"
  proof -
    from ne ts obtain row rest where r: "rows = row # rest" by (cases rows) auto
    have "zip (DateTime row # map DateTime rest) (map DateTime rest) = zip ts (tl ts)"
      using ts r by auto
    with eq have "\<forall>(a, b) \<in> set (zip (DateTime row # map DateTime rest) (map DateTime rest)). b - a \<le> 60 * m"
      by auto
    from only_small_gaps_one_chunk[OF this] show ?thesis by (simp add: cs r)
  qed
  show ?thesis
    unfolding Let_def ts_def[symmetric] cs_def[symmetric] using starts one by blast
qed

theorem segmentation_strict_gap_witness:
  "map Start (filter (\<lambda>c. Developer c = ''a'') (frame_rows (process_work_chunks
     [\<lparr>User = Some ''a'', DateTime = 1800, source_file = ''f''\<rparr>,
      \<lparr>User = Some ''a'', DateTime = 0, source_file = ''f''\<rparr>] 30))) = [0]
   \<and> length (filter (\<lambda>c. Developer c = ''a'') (frame_rows (process_work_chunks
     [\<lparr>User = Some ''a'', DateTime = 1800, source_file = ''f''\<rparr>,
      \<lparr>User = Some ''a'', DateTime = 0, source_file = ''f''\<rparr>] 30))) = 1"
  using segmentation_strict_gap[of "''a''"
     "[\<lparr>User = Some ''a'', DateTime = 1800, source_file = ''f''\<rparr>,
      \<lparr>User = Some ''a'', DateTime = 0, source_file = ''f''\<rparr>]" 30]
  by (simp add: group_of_def Let_def)

subsection \<open>The gap to the next chunk\<close>

lemma user_loop_Some_nonempty: "user_loop u thr (Some (cs, ce, n)) rows \<noteq> []"
  by (induction rows arbitrary: cs ce n) (auto simp: Let_def)

lemma user_loop_Some_hd: "Start (hd (user_loop u thr (Some (cs, ce, n)) rows)) = cs"
  using user_loop_Start[of u thr cs ce n rows] user_loop_Some_nonempty[of u thr cs ce n rows]
  by (cases "user_loop u thr (Some (cs, ce, n)) rows") auto

lemma user_loop_gaps:
  "i < length (user_loop u thr (Some (cs, ce, n)) rows) \<Longrightarrow>
     (Gap_to_Next (user_loop u thr (Some (cs, ce, n)) rows ! i) = None
        \<longleftrightarrow> Suc i = length (user_loop u thr (Some (cs, ce, n)) rows)) \<and>
     (Suc i < length (user_loop u thr (Some (cs, ce, n)) rows) \<longrightarrow>
        Gap_to_Next (user_loop u thr (Some (cs, ce, n)) rows ! i) =
          Some (of_int (Start (user_loop u thr (Some (cs, ce, n)) rows ! Suc i)
                        - End (user_loop u thr (Some (cs, ce, n)) rows ! i)) / 60) \<and>
        thr < Start (user_loop u thr (Some (cs, ce, n)) rows ! Suc i)
                - End (user_loop u thr (Some (cs, ce, n)) rows ! i))"
proof (induction rows arbitrary: cs ce n i)
  case Nil
  then show ?case by (simp add: make_chunk_def)
next
  case (Cons row rows)
  let ?t = "DateTime row"
  show ?case
  proof (cases "?t - ce > thr")
    case False
    with Cons show ?thesis by (simp add: Let_def)
  next
    case True
    let ?rest = "user_loop u thr (Some (?t, ?t, 1)) rows"
    have eq: "user_loop u thr (Some (cs, ce, n)) (row # rows) =
        make_chunk u cs ce n (Some (of_int (?t - ce) / 60)) # ?rest"
      using True by (simp add: Let_def)
    have ne: "?rest \<noteq> []" by (rule user_loop_Some_nonempty)
    have hd: "Start (?rest ! 0) = ?t"
      using user_loop_Some_hd[of u thr ?t ?t 1 rows] ne by (simp add: hd_conv_nth)
    show ?thesis
    proof (cases i)
      case 0
      then show ?thesis unfolding eq using True ne hd by (simp add: make_chunk_def)
    next
      case (Suc j)
      with Cons.prems have "j < length ?rest" unfolding eq by simp
      from Cons.IH[OF this] show ?thesis unfolding eq Suc by simp
    qed
  qed
qed

lemma user_loop_gaps_any:
  assumes "i < length (user_loop u thr st rows)"
  shows "(Gap_to_Next (user_loop u thr st rows ! i) = None
        \<longleftrightarrow> Suc i = length (user_loop u thr st rows)) \<and>
     (Suc i < length (user_loop u thr st rows) \<longrightarrow>
        Gap_to_Next (user_loop u thr st rows ! i) =
          Some (of_int (Start (user_loop u thr st rows ! Suc i)
                        - End (user_loop u thr st rows ! i)) / 60) \<and>
        thr < Start (user_loop u thr st rows ! Suc i) - End (user_loop u thr st rows ! i))"
proof (cases st)
  case None
  show ?thesis
  proof (cases rows)
    case Nil
    with None assms show ?thesis by simp
  next
    case (Cons row rest)
    with None assms show ?thesis using user_loop_gaps[of i u thr "DateTime row" "DateTime row" 1 rest]
      by simp
  qed
next
  case (Some a)
  obtain cs ce n where "a = (cs, ce, n)" by (cases a)
  with Some assms show ?thesis using user_loop_gaps[of i u thr cs ce n rows] by simp
qed

text \<open>
  Claim C2. In the sequence of one owner's chunks, in the order the function produces
  them, \<^verbatim>\<open>Gap to Next\<close> is \<open>None\<close> exactly for the last chunk; for every other chunk it
  is the time from the chunk's \<open>End\<close> to the next chunk's \<open>Start\<close> (in minutes, the unit
  of the column) and strictly greater than the threshold \<open>inactivity_minutes\<close>. For a
  positive threshold the next chunk starts strictly after this one ends, so the order
  of the sequence is the chronological one.
\<close>

theorem gap_to_next_chain:
  "let cs = filter (\<lambda>c. Developer c = u) (frame_rows (process_work_chunks df m))
   in \<forall>i < length cs.
        (Gap_to_Next (cs ! i) = None \<longleftrightarrow> Suc i = length cs) \<and>
        (Suc i < length cs \<longrightarrow>
           Gap_to_Next (cs ! i) = Some (of_int (Start (cs ! Suc i) - End (cs ! i)) / 60) \<and>
           of_int m < (of_int (Start (cs ! Suc i) - End (cs ! i)) / 60 :: rat) \<and>
           (0 < m \<longrightarrow> End (cs ! i) < Start (cs ! Suc i)))"
proof -
  define rows where "rows = group_of u (sort_key (\<lambda>r. (User r, DateTime r)) (filter valid_user df))"
  define cs where "cs = user_loop u (60 * m) None rows"
  have fr: "frame_rows (process_work_chunks df m) = chunks_list df m"
    by (simp add: process_work_chunks_def DataFrame_def)
  have cs: "filter (\<lambda>c. Developer c = u) (frame_rows (process_work_chunks df m)) = cs"
    unfolding cs_def rows_def fr by (rule chunks_of_user)
  have "(Gap_to_Next (cs ! i) = None \<longleftrightarrow> Suc i = length cs) \<and>
        (Suc i < length cs \<longrightarrow>
           Gap_to_Next (cs ! i) = Some (of_int (Start (cs ! Suc i) - End (cs ! i)) / 60) \<and>
           of_int m < (of_int (Start (cs ! Suc i) - End (cs ! i)) / 60 :: rat) \<and>
           (0 < m \<longrightarrow> End (cs ! i) < Start (cs ! Suc i)))" if i: "i < length cs" for i
  proof -
    note g = user_loop_gaps_any[OF i[unfolded cs_def], folded cs_def]
    have "of_int m < (of_int (Start (cs ! Suc i) - End (cs ! i)) / 60 :: rat)"
      if "60 * m < Start (cs ! Suc i) - End (cs ! i)"
    proof -
      from that have "(of_int (60 * m) :: rat) < of_int (Start (cs ! Suc i) - End (cs ! i))"
        by (simp only: of_int_less_iff)
      then show ?thesis by simp
    qed
    moreover have "End (cs ! i) < Start (cs ! Suc i)"
      if "60 * m < Start (cs ! Suc i) - End (cs ! i)" "0 < m"
      using that by linarith
    ultimately show ?thesis using g by blast
  qed
  then show ?thesis unfolding Let_def cs by blast
qed

theorem gap_to_next_chain_witness:
  "let cs = filter (\<lambda>c. Developer c = ''a'') (frame_rows (process_work_chunks
     [\<lparr>User = Some ''a'', DateTime = 3900, source_file = ''f''\<rparr>,
      \<lparr>User = Some ''b'', DateTime = 100, source_file = ''f''\<rparr>,
      \<lparr>User = Some ''a'', DateTime = 0, source_file = ''f''\<rparr>,
      \<lparr>User = Some ''a'', DateTime = 600, source_file = ''g''\<rparr>] 30))
   in length cs = 2 \<and> (0::int) < 30 \<and>
      Gap_to_Next (cs ! 0) = Some (of_int (Start (cs ! Suc 0) - End (cs ! 0)) / 60) \<and>
      of_int 30 < (of_int (Start (cs ! Suc 0) - End (cs ! 0)) / 60 :: rat) \<and>
      End (cs ! 0) < Start (cs ! Suc 0) \<and>
      Gap_to_Next (cs ! Suc 0) = None"
proof -
  let ?df = "[\<lparr>User = Some ''a'', DateTime = 3900, source_file = ''f''\<rparr>,
      \<lparr>User = Some ''b'', DateTime = 100, source_file = ''f''\<rparr>,
      \<lparr>User = Some ''a'', DateTime = 0, source_file = ''f''\<rparr>,
      \<lparr>User = Some ''a'', DateTime = 600, source_file = ''g''\<rparr>]"
  let ?cs = "filter (\<lambda>c. Developer c = ''a'') (frame_rows (process_work_chunks ?df 30))"
  have len: "length ?cs = 2"
    by (simp add: segmentation_eval)
  note chain = gap_to_next_chain[of "''a''" ?df 30, unfolded Let_def, rule_format]
  have "0 < length ?cs" "Suc 0 < length ?cs" "Suc (Suc 0) = length ?cs" using len by simp_all
  with chain[of 0] chain[of "Suc 0"] len show ?thesis unfolding Let_def by simp
qed

subsection \<open>Order of the input rows\<close>

lemma user_loop_times_cong:
  "map DateTime xs = map DateTime ys \<Longrightarrow> user_loop u thr st xs = user_loop u thr st ys"
proof (induction u thr st xs arbitrary: ys rule: user_loop.induct)
  case (1 user thr)
  then show ?case by simp
next
  case (2 user thr cs ce n)
  then show ?case by simp
next
  case (3 user thr row rows)
  then obtain y ys' where "ys = y # ys'" "DateTime y = DateTime row" "map DateTime rows = map DateTime ys'"
    by (cases ys) auto
  with 3 show ?case by simp
next
  case (4 user thr cs ce n row rows)
  then obtain y ys' where y: "ys = y # ys'" "DateTime y = DateTime row" "map DateTime rows = map DateTime ys'"
    by (cases ys) auto
  show ?case
  proof (cases "DateTime row - ce > thr")
    case True
    with 4(1)[OF refl refl True y(3)] y show ?thesis by (simp add: Let_def)
  next
    case False
    with 4(2)[OF refl refl _ y(3)] y show ?thesis by (simp add: Let_def)
  qed
qed

lemma chunks_list_mset:
  assumes "mset df = mset df'"
  shows "chunks_list df m = chunks_list df' m"
proof -
  let ?k = "\<lambda>r. (User r, DateTime r)"
  define d where "d = sort_key ?k (filter valid_user df)"
  define d' where "d' = sort_key ?k (filter valid_user df')"
  have v: "mset (filter valid_user df) = mset (filter valid_user df')"
    by (simp only: mset_filter assms)
  have "set d = set d'"
    unfolding d_def d'_def using mset_eq_setD[OF v] by simp
  then have "set (List.map_filter User d) = set (List.map_filter User d')"
    by (simp add: List.map_filter_def)
  then have keys: "groupby_keys d = groupby_keys d'"
    unfolding groupby_keys_def by (simp only: flip: sorted_list_of_set_sort_remdups)
  have "user_loop u (60 * m) None (group_of u d) = user_loop u (60 * m) None (group_of u d')" for u
  proof (rule user_loop_times_cong)
    have "mset (group_of u (filter valid_user df)) = mset (group_of u (filter valid_user df'))"
      unfolding group_of_def by (simp only: mset_filter assms)
    then have "mset (map DateTime (group_of u (filter valid_user df))) =
               mset (map DateTime (group_of u (filter valid_user df')))"
      by (simp only: mset_map)
    then have "mset (sort (map DateTime (group_of u (filter valid_user df')))) =
               mset (map DateTime (group_of u (filter valid_user df)))"
      by simp
    from properties_for_sort[OF this]
    have "sort (map DateTime (group_of u (filter valid_user df))) =
               sort (map DateTime (group_of u (filter valid_user df')))"
      by simp
    then show "map DateTime (group_of u d) = map DateTime (group_of u d')"
      by (simp add: d_def d'_def group_times)
  qed
  then show ?thesis
    unfolding chunks_list_def Let_def d_def[symmetric] d'_def[symmetric] keys by simp
qed

text \<open>
  Claim C7. Two tables with the same multiset of rows, in any order (rows of one user with
  equal instants included), give the same frame of chunks for the same threshold.
\<close>

theorem segmentation_order_independent:
  "mset df = mset df' \<Longrightarrow> process_work_chunks df m = process_work_chunks df' m"
  by (simp add: process_work_chunks_def chunks_list_mset[of df df' m])

theorem segmentation_order_independent_witness:
  "mset [\<lparr>User = Some ''a'', DateTime = 600, source_file = ''f''\<rparr>,
         \<lparr>User = Some ''b'', DateTime = 5, source_file = ''f''\<rparr>,
         \<lparr>User = Some ''a'', DateTime = 600, source_file = ''g''\<rparr>,
         \<lparr>User = Some ''a'', DateTime = 0, source_file = ''f''\<rparr>] =
   mset [\<lparr>User = Some ''a'', DateTime = 0, source_file = ''f''\<rparr>,
         \<lparr>User = Some ''a'', DateTime = 600, source_file = ''g''\<rparr>,
         \<lparr>User = Some ''a'', DateTime = 600, source_file = ''f''\<rparr>,
         \<lparr>User = Some ''b'', DateTime = 5, source_file = ''f''\<rparr>]
   \<and> process_work_chunks
        [\<lparr>User = Some ''a'', DateTime = 600, source_file = ''f''\<rparr>,
         \<lparr>User = Some ''b'', DateTime = 5, source_file = ''f''\<rparr>,
         \<lparr>User = Some ''a'', DateTime = 600, source_file = ''g''\<rparr>,
         \<lparr>User = Some ''a'', DateTime = 0, source_file = ''f''\<rparr>] 30 =
       process_work_chunks
        [\<lparr>User = Some ''a'', DateTime = 0, source_file = ''f''\<rparr>,
         \<lparr>User = Some ''a'', DateTime = 600, source_file = ''g''\<rparr>,
         \<lparr>User = Some ''a'', DateTime = 600, source_file = ''f''\<rparr>,
         \<lparr>User = Some ''b'', DateTime = 5, source_file = ''f''\<rparr>] 30"
proof -
  have m: "mset [\<lparr>User = Some ''a'', DateTime = 600, source_file = ''f''\<rparr>,
         \<lparr>User = Some ''b'', DateTime = 5, source_file = ''f''\<rparr>,
         \<lparr>User = Some ''a'', DateTime = 600, source_file = ''g''\<rparr>,
         \<lparr>User = Some ''a'', DateTime = 0, source_file = ''f''\<rparr>] =
   mset [\<lparr>User = Some ''a'', DateTime = 0, source_file = ''f''\<rparr>,
         \<lparr>User = Some ''a'', DateTime = 600, source_file = ''g''\<rparr>,
         \<lparr>User = Some ''a'', DateTime = 600, source_file = ''f''\<rparr>,
         \<lparr>User = Some ''b'', DateTime = 5, source_file = ''f''\<rparr>]"
    by (simp add: add_mset_commute)
  from m segmentation_order_independent[OF m, of 30] show ?thesis by (rule conjI)
qed

subsection \<open>Conservation of the log count\<close>

lemma user_loop_count:
  "sum_list (map Log_Count (user_loop u thr (Some (cs, ce, n)) rows)) = n + length rows"
  by (induction rows arbitrary: cs ce n) (auto simp: Let_def make_chunk_def)

lemma user_loop_None_count:
  "sum_list (map Log_Count (user_loop u thr None rows)) = length rows"
  by (cases rows) (simp_all add: user_loop_count)

lemma sum_group_lengths:
  assumes "finite K" "\<forall>r \<in> set xs. \<exists>u \<in> K. User r = Some u"
  shows "(\<Sum>u \<in> K. length (group_of u xs)) = length xs"
  using assms(2)
proof (induction xs)
  case Nil
  then show ?case by (simp add: group_of_def)
next
  case (Cons x xs)
  then obtain k where k: "k \<in> K" "User x = Some k" by auto
  have "(\<Sum>u \<in> K. length (group_of u (x # xs))) =
        (\<Sum>u \<in> K. (if k = u then 1 else 0) + length (group_of u xs))"
    by (rule sum.cong) (auto simp: group_of_def k)
  also have "\<dots> = (\<Sum>u \<in> K. if k = u then 1 else 0) + (\<Sum>u \<in> K. length (group_of u xs))"
    by (simp add: sum.distrib)
  also have "(\<Sum>u \<in> K. if k = u then 1 else 0) = (1::nat)"
    using assms(1) k(1) by simp
  finally show ?case using Cons by simp
qed

lemma set_groupby_keys: "u \<in> set (groupby_keys xs) \<longleftrightarrow> (\<exists>r \<in> set xs. User r = Some u)"
  by (force simp: groupby_keys_def List.map_filter_def image_iff)

lemma sum_list_concat_map:
  "sum_list (map f (concat (map g ks))) = (\<Sum>k\<leftarrow>ks. sum_list (map f (g k)))"
  by (induction ks) auto

lemma chunks_list_log_count:
  "sum_list (map Log_Count (chunks_list df m)) = length (filter valid_user df)"
proof -
  define df2 where "df2 = sort_key (\<lambda>r. (User r, DateTime r)) (filter valid_user df)"
  have "sum_list (map Log_Count (chunks_list df m)) = (\<Sum>u\<leftarrow>groupby_keys df2. length (group_of u df2))"
    unfolding chunks_list_def Let_def df2_def[symmetric]
    by (simp add: sum_list_concat_map user_loop_None_count)
  also have "\<dots> = (\<Sum>u \<in> set (groupby_keys df2). length (group_of u df2))"
    by (rule sum_list_distinct_conv_sum_set) (simp add: groupby_keys_def)
  also have "\<dots> = length df2"
  proof (rule sum_group_lengths)
    show "\<forall>r \<in> set df2. \<exists>u \<in> set (groupby_keys df2). User r = Some u"
      by (fastforce simp: set_groupby_keys df2_def valid_user_def)
  qed simp
  finally show ?thesis by (simp add: df2_def)
qed


lemma frame_rows_process: "frame_rows (process_work_chunks df m) = chunks_list df m"
  by (simp add: process_work_chunks_def DataFrame_def)

text \<open>
  Claim C9. The \<^verbatim>\<open>Log Count\<close> values of all chunks add up to the number of rows whose
  \<open>User\<close> is neither missing nor empty: every such row is counted in exactly one chunk
  and the other rows in none.
\<close>

theorem log_count_conservation:
  "sum_list (map Log_Count (frame_rows (process_work_chunks df m))) = length (filter valid_user df)"
  unfolding frame_rows_process by (rule chunks_list_log_count)

theorem log_count_conservation_witness:
  "sum_list (map Log_Count (frame_rows (process_work_chunks
     [\<lparr>User = Some ''a'', DateTime = 1800, source_file = ''f''\<rparr>,
      \<lparr>User = None, DateTime = 7, source_file = ''f''\<rparr>,
      \<lparr>User = Some [], DateTime = 9, source_file = ''f''\<rparr>,
      \<lparr>User = Some ''b'', DateTime = 0, source_file = ''f''\<rparr>] 30))) = 2"
  using log_count_conservation[of
     "[\<lparr>User = Some ''a'', DateTime = 1800, source_file = ''f''\<rparr>,
      \<lparr>User = None, DateTime = 7, source_file = ''f''\<rparr>,
      \<lparr>User = Some [], DateTime = 9, source_file = ''f''\<rparr>,
      \<lparr>User = Some ''b'', DateTime = 0, source_file = ''f''\<rparr>]" 30]
  by (simp add: valid_user_def)

subsection \<open>The duration fields\<close>






section \<open>Properties of rounding, the filter and the summary\<close>

subsection \<open>Rounding to two decimals\<close>

lemma rint_error: "\<bar>of_int (rint y) - y\<bar> \<le> 1 / 2"
proof -
  have "of_int \<lfloor>y\<rfloor> \<le> y" "y < of_int \<lfloor>y\<rfloor> + 1" by linarith+
  then show ?thesis unfolding rint_def Let_def by (auto simp: abs_le_iff)
qed

lemma round2_error: "\<bar>round2 x - x\<bar> \<le> 1 / 200"
proof -
  have e: "round2 x - x = (of_int (rint (x * 100)) - x * 100) / 100"
    by (simp add: round2_def field_simps)
  have "\<bar>round2 x - x\<bar> = \<bar>of_int (rint (x * 100)) - x * 100\<bar> / 100"
    unfolding e abs_divide by simp
  also have "\<dots> \<le> (1 / 2) / 100"
    using rint_error[of "x * 100"] by (simp add: divide_right_mono)
  finally show ?thesis by simp
qed

lemma rint_of_int: "rint (of_int k) = k"
  by (simp add: rint_def)

lemma round2_idem: "round2 (round2 x) = round2 x"
  by (simp add: round2_def rint_of_int)

lemma round2_0: "round2 0 = 0"
  by (simp add: round2_def rint_def)

subsection \<open>The minimum-hours filter\<close>

lemma filter_filter_dev:
  "P d \<Longrightarrow> filter (\<lambda>c. Developer c = d) (filter (\<lambda>c. P (Developer c)) cs) = filter (\<lambda>c. Developer c = d) cs"
  by (induction cs) auto

lemma dev_hours_filter:
  "P d \<Longrightarrow> dev_hours (filter (\<lambda>c. P (Developer c)) cs) d = dev_hours cs d"
  by (simp only: dev_hours_def filter_filter_dev)

lemma min_hours_filter_Frame:
  "0 < m \<Longrightarrow> min_hours_filter m (Frame cs) =
     Inr (Frame (filter (\<lambda>c. m \<le> dev_hours cs (Developer c)) cs),
          nunique cs - nunique (filter (\<lambda>c. m \<le> dev_hours cs (Developer c)) cs))"
proof -
  have "filter (\<lambda>c. Developer c \<in> set (filter (\<lambda>d. m \<le> dev_hours cs d) (sort (remdups (map Developer cs))))) cs
      = filter (\<lambda>c. m \<le> dev_hours cs (Developer c)) cs"
    by (rule filter_cong) auto
  then show ?thesis if "0 < m" using that by (simp add: min_hours_filter_def Let_def)
qed

lemma filter_twice:
  "filter (\<lambda>c. m \<le> dev_hours (filter (\<lambda>c. m \<le> dev_hours cs (Developer c)) cs) (Developer c))
     (filter (\<lambda>c. m \<le> dev_hours cs (Developer c)) cs) = filter (\<lambda>c. m \<le> dev_hours cs (Developer c)) cs"
proof -
  have "m \<le> dev_hours (filter (\<lambda>c. m \<le> dev_hours cs (Developer c)) cs) (Developer c)"
    if "c \<in> set (filter (\<lambda>c. m \<le> dev_hours cs (Developer c)) cs)" for c
  proof -
    from that have "m \<le> dev_hours cs (Developer c)" by simp
    then show ?thesis using dev_hours_filter[of "\<lambda>d. m \<le> dev_hours cs d" "Developer c" cs] by simp
  qed
  then show ?thesis by (intro filter_True ballI)
qed

text \<open>
  Claim C6. With \<open>min_hours \<le> 0\<close> the filter returns the frame it was given and drops no
  developer. On every frame that has its columns the filter returns, and applying it
  again with the same \<open>min_hours\<close> to its result returns that result unchanged and drops
  no developer.
\<close>

theorem min_hours_filter_identity_idempotent:
  "(m \<le> 0 \<longrightarrow> min_hours_filter m chunks_df = Inr (chunks_df, 0)) \<and>
   (\<exists>filtered k. min_hours_filter m (Frame cs) = Inr (Frame filtered, k) \<and>
      min_hours_filter m (Frame filtered) = Inr (Frame filtered, 0))"
proof (cases "0 < m")
  case True
  let ?f = "filter (\<lambda>c. m \<le> dev_hours cs (Developer c)) cs"
  have 1: "min_hours_filter m (Frame cs) = Inr (Frame ?f, nunique cs - nunique ?f)"
    using True by (rule min_hours_filter_Frame)
  have 2: "min_hours_filter m (Frame ?f) = Inr (Frame ?f, 0)"
    by (simp only: min_hours_filter_Frame[OF True] filter_twice diff_self_eq_0)
  from True 1 2 show ?thesis by auto
next
  case False
  then show ?thesis by (simp add: min_hours_filter_def)
qed

theorem min_hours_filter_identity_idempotent_witness:
  "(0::rat) \<le> 0 \<and>
   min_hours_filter 0 (Frame [make_chunk ''a'' 0 3600 2 None, make_chunk ''b'' 0 600 2 None]) =
     Inr (Frame [make_chunk ''a'' 0 3600 2 None, make_chunk ''b'' 0 600 2 None], 0) \<and>
   min_hours_filter (1 / 2) (Frame [make_chunk ''a'' 0 3600 2 None, make_chunk ''b'' 0 600 2 None]) =
     Inr (Frame [make_chunk ''a'' 0 3600 2 None], 1) \<and>
   min_hours_filter (1 / 2) (Frame [make_chunk ''a'' 0 3600 2 None]) =
     Inr (Frame [make_chunk ''a'' 0 3600 2 None], 0)"
proof -
  let ?cs = "[make_chunk ''a'' 0 3600 2 None, make_chunk ''b'' 0 600 2 None]"
  have ev: "min_hours_filter (1 / 2) (Frame ?cs) = Inr (Frame [make_chunk ''a'' 0 3600 2 None], 1)"
    by code_simp
  from min_hours_filter_identity_idempotent[of 0 "Frame ?cs" ?cs]
       min_hours_filter_identity_idempotent[of "1 / 2" "Frame ?cs" ?cs] ev
  show ?thesis by auto
qed

subsection \<open>The summary\<close>

lemma stable_sort_values_contract: "sorts_descending stable_sort_values"
proof -
  have d: "sorted_wrt (\<lambda>a b. Duration_hours_sum b \<le> Duration_hours_sum a) (rev (sort_key Duration_hours_sum xs))" for xs
  proof -
    have "sorted (map Duration_hours_sum (sort_key Duration_hours_sum xs))" by simp
    then have "sorted_wrt (\<lambda>a b. Duration_hours_sum a \<le> Duration_hours_sum b) (sort_key Duration_hours_sum xs)"
      by (simp only: sorted_wrt_map)
    then show ?thesis by (simp only: sorted_wrt_rev)
  qed
  show ?thesis by (simp add: sorts_descending_def stable_sort_values_def d)
qed


lemma sum_by_developer:
  assumes "finite K" "Developer ` set cs \<subseteq> K"
  shows "(\<Sum>d \<in> K. sum_list (map f (filter (\<lambda>c. Developer c = d) cs))) = sum_list (map f cs)"
  using assms(2)
proof (induction cs)
  case Nil
  then show ?case by simp
next
  case (Cons c cs)
  have "(\<Sum>d \<in> K. sum_list (map f (filter (\<lambda>c. Developer c = d) (c # cs)))) =
        (\<Sum>d \<in> K. (if Developer c = d then f c else 0) + sum_list (map f (filter (\<lambda>c. Developer c = d) cs)))"
    by (rule sum.cong) auto
  also have "\<dots> = (\<Sum>d \<in> K. if Developer c = d then f c else 0)
                   + (\<Sum>d \<in> K. sum_list (map f (filter (\<lambda>c. Developer c = d) cs)))"
    by (simp add: sum.distrib)
  also have "(\<Sum>d \<in> K. if Developer c = d then f c else 0) = f c"
    using assms(1) Cons.prems by simp
  finally show ?case using Cons by simp
qed

lemma groupby_Developer_hours:
  "map Duration_hours_sum (map round_row (groupby_Developer cs)) =
     map (\<lambda>d. round2 (dev_hours cs d)) (sort (remdups (map Developer cs)))"
  by (simp add: groupby_Developer_def round_row_def dev_hours_def Let_def comp_def)

lemma sum_list_abs_diff:
  fixes f g :: "'a \<Rightarrow> rat"
  assumes "\<And>x. x \<in> set xs \<Longrightarrow> \<bar>f x - g x\<bar> \<le> e"
  shows "\<bar>sum_list (map f xs) - sum_list (map g xs)\<bar> \<le> of_nat (length xs) * e"
  using assms
proof (induction xs)
  case Nil
  then show ?case by simp
next
  case (Cons x xs)
  have "\<bar>f x - g x\<bar> \<le> e" using Cons.prems by simp
  moreover have "\<bar>sum_list (map f xs) - sum_list (map g xs)\<bar> \<le> of_nat (length xs) * e"
    using Cons by simp
  ultimately show ?case by (simp add: algebra_simps abs_le_iff)
qed

lemma summary_total:
  assumes "sorts_descending sort_values"
  shows "\<exists>summary. generate_summary sort_values (Frame cs) = Inr summary \<and>
           length summary = length (remdups (map Developer cs)) \<and>
           \<bar>sum_list (map Duration_hours_sum summary) - sum_list (map Duration_hours cs)\<bar>
             \<le> of_nat (length summary) / 200"
proof -
  define rows where "rows = map round_row (groupby_Developer cs)"
  define ks where "ks = sort (remdups (map Developer cs))"
  have m: "mset (sort_values rows) = mset rows"
    using assms by (simp add: sorts_descending_def)
  have len: "length (sort_values rows) = length ks"
    using mset_eq_length[OF m] by (simp add: rows_def groupby_Developer_def ks_def)
  have "sum_list (map Duration_hours_sum (sort_values rows)) = sum_list (map Duration_hours_sum rows)"
    using m by (metis mset_map sum_mset_sum_list)
  also have "\<dots> = sum_list (map (\<lambda>d. round2 (dev_hours cs d)) ks)"
    unfolding rows_def ks_def by (simp only: groupby_Developer_hours)
  finally have s: "sum_list (map Duration_hours_sum (sort_values rows)) =
      sum_list (map (\<lambda>d. round2 (dev_hours cs d)) ks)" .
  have "sum_list (map (dev_hours cs) ks) = (\<Sum>d \<in> set ks. dev_hours cs d)"
    by (rule sum_list_distinct_conv_sum_set) (simp add: ks_def)
  also have "\<dots> = sum_list (map Duration_hours cs)"
    unfolding dev_hours_def by (rule sum_by_developer) (simp_all add: ks_def)
  finally have t: "sum_list (map (dev_hours cs) ks) = sum_list (map Duration_hours cs)" .
  have "\<bar>sum_list (map (\<lambda>d. round2 (dev_hours cs d)) ks) - sum_list (map (dev_hours cs) ks)\<bar>
        \<le> of_nat (length ks) * (1 / 200)"
    by (rule sum_list_abs_diff) (rule round2_error)
  then have "\<bar>sum_list (map Duration_hours_sum (sort_values rows)) - sum_list (map Duration_hours cs)\<bar>
        \<le> of_nat (length (sort_values rows)) / 200"
    by (simp only: s t len)
  moreover have "generate_summary sort_values (Frame cs) = Inr (sort_values rows)"
    by (simp add: rows_def)
  moreover have "length (sort_values rows) = length (remdups (map Developer cs))"
    by (simp add: len ks_def)
  ultimately show ?thesis by blast
qed

text \<open>
  Claim C8. For every chunk set whose \<^verbatim>\<open>Duration (hours)\<close> is the chunk's length in
  seconds over 3600, the hours of the summary rows add up to the sum of
  \<open>(End - Start) / 3600\<close> over the chunks, within the rounding tolerance of the summary:
  half a hundredth of an hour for each summary row.
\<close>

theorem summary_hours_total:
  assumes "sorts_descending sort_values"
    and "\<forall>c \<in> set cs. Duration_hours c = of_int (End c - Start c) / 3600"
  shows "\<exists>summary. generate_summary sort_values (Frame cs) = Inr summary \<and>
           \<bar>sum_list (map Duration_hours_sum summary) - (\<Sum>c\<leftarrow>cs. of_int (End c - Start c) / 3600)\<bar>
             \<le> of_nat (length summary) / 200"
proof -
  have "map Duration_hours cs = map (\<lambda>c. of_int (End c - Start c) / 3600) cs"
    using assms(2) by simp
  then have "sum_list (map Duration_hours cs) = (\<Sum>c\<leftarrow>cs. of_int (End c - Start c) / 3600)"
    by (simp only:)
  with summary_total[OF assms(1), of cs] show ?thesis by auto
qed

theorem summary_hours_total_witness:
  "sorts_descending stable_sort_values \<and>
   generate_summary stable_sort_values
     (Frame [make_chunk ''a'' 0 600 2 (Some 55), make_chunk ''a'' 3900 3900 1 None,
             make_chunk ''b'' 0 3480 3 None]) =
     Inr [\<lparr>Developer_key = ''b'', Duration_hours_sum = 97 / 100, Log_Count_sum = 3, Chunk_Count = 1\<rparr>,
          \<lparr>Developer_key = ''a'', Duration_hours_sum = 17 / 100, Log_Count_sum = 3, Chunk_Count = 2\<rparr>] \<and>
   \<bar>(97 / 100 + 17 / 100) - (of_int (600 - 0) / 3600 + of_int (3900 - 3900) / 3600 + of_int (3480 - 0) / 3600)\<bar>
     \<le> (of_nat 2 / 200 :: rat)"
proof -
  let ?cs = "[make_chunk ''a'' 0 600 2 (Some 55), make_chunk ''a'' 3900 3900 1 None,
             make_chunk ''b'' 0 3480 3 None]"
  have ev: "generate_summary stable_sort_values (Frame ?cs) =
     Inr [\<lparr>Developer_key = ''b'', Duration_hours_sum = 97 / 100, Log_Count_sum = 3, Chunk_Count = 1\<rparr>,
          \<lparr>Developer_key = ''a'', Duration_hours_sum = 17 / 100, Log_Count_sum = 3, Chunk_Count = 2\<rparr>]"
    by code_simp
  have h: "\<forall>c \<in> set ?cs. Duration_hours c = of_int (End c - Start c) / 3600"
    by (simp add: make_chunk_def)
  from summary_hours_total[OF stable_sort_values_contract h] ev stable_sort_values_contract
  show ?thesis by (simp add: make_chunk_def)
qed




subsection \<open>\<^verbatim>\<open>main\<close> and its configuration\<close>




section \<open>Properties of the period pivots\<close>

lemma sort_remdups_cong: "set xs = set ys \<Longrightarrow> sort (remdups xs) = sort (remdups ys)"
  by (simp only: flip: sorted_list_of_set_sort_remdups)

lemma filter_eq_distinct:
  "distinct ks \<Longrightarrow> filter (\<lambda>k. k = a) ks = (if a \<in> set ks then [a] else [])"
  by (induction ks) auto

lemma sum_list_sort_key:
  fixes h :: "'a \<Rightarrow> rat"
  shows "sum_list (map h (sort_key k xs)) = sum_list (map h xs)"
proof -
  have "mset (map h (sort_key k xs)) = mset (map h xs)" by simp
  then show ?thesis by (metis sum_mset_sum_list)
qed

lemma summary_rows_rounded_once:
  "r \<in> set (map round_row (groupby_Developer cs)) \<Longrightarrow>
     Duration_hours_sum r = round2 (dev_hours cs (Developer_key r))"
  by (auto simp: groupby_Developer_def round_row_def dev_hours_def Let_def)

lemma period_rows_rounded_once:
  "r \<in> set (map round_period_row (groupby_period period cs)) \<Longrightarrow>
     period_hours r = round2 (sum_list (map Duration_hours
        (filter (\<lambda>c. period (Start c) = group_key r \<and> Developer c = developer r) cs)))"
  by (auto simp: groupby_period_def round_period_row_def Let_def)

lemma period_rows_developers:
  "set (map developer (map round_period_row (groupby_period period cs))) = Developer ` set cs"
  by (force simp: groupby_period_def round_period_row_def Let_def comp_def split_def image_iff)

lemma period_rows_keys:
  "set (map (\<lambda>r. idx (group_key r)) (map round_period_row (groupby_period period cs)))
     = (\<lambda>c. idx (period (Start c))) ` set cs"
  by (force simp: groupby_period_def round_period_row_def Let_def comp_def split_def image_iff)

lemma pivot_cells_key:
  "d \<noteq> ''TOTAL'' \<Longrightarrow> cell (add_total_row (add_total_column t)) (Key p) d = cell t p d"
  by (simp add: add_total_row_def add_total_column_def)

lemma pivot_total_column:
  "cell (add_total_row (add_total_column t)) (Key p) ''TOTAL'' =
     round2 (sum_list (map (cell t p) (columns t)))"
  by (simp add: add_total_row_def add_total_column_def)

lemma pivot_total_row:
  "cell (add_total_row (add_total_column t)) TOTAL c =
     round2 (\<Sum>p\<leftarrow>index t. cell (add_total_row (add_total_column t)) (Key p) c)"
  by (simp add: add_total_row_def add_total_column_def)

lemma day_rows_at:
  "filter (\<lambda>r. group_key r = p \<and> developer r = d) (map round_period_row (groupby_period period cs)) =
     (if (p, d) \<in> (\<lambda>c. (period (Start c), Developer c)) ` set cs
      then [\<lparr>group_key = p, developer = d,
             period_hours = round2 (sum_list (map Duration_hours
                (filter (\<lambda>c. period (Start c) = p \<and> Developer c = d) cs))),
             period_logs = sum_list (map Log_Count (filter (\<lambda>c. period (Start c) = p \<and> Developer c = d) cs)),
             period_chunks = length (filter (\<lambda>c. period (Start c) = p \<and> Developer c = d) cs)\<rparr>]
      else [])"
proof -
  define ks where "ks = sort (remdups (map (\<lambda>c. (period (Start c), Developer c)) cs))"
  define mk where "mk = (\<lambda>(p, d). let g = filter (\<lambda>c. period (Start c) = p \<and> Developer c = d) cs in
                   round_period_row \<lparr>group_key = p, developer = d,
                    period_hours = sum_list (map Duration_hours g),
                    period_logs = sum_list (map Log_Count g),
                    period_chunks = length g\<rparr>)"
  have rows: "map round_period_row (groupby_period period cs) = map mk ks"
    by (simp add: groupby_period_def ks_def mk_def comp_def split_def Let_def)
  have "filter (\<lambda>r. group_key r = p \<and> developer r = d) (map mk ks) =
        map mk (filter (\<lambda>k. k = (p, d)) ks)"
    unfolding filter_map comp_def
    by (rule arg_cong[where f="map mk"], rule filter_cong)
       (auto simp: mk_def round_period_row_def Let_def split_def)
  also have "\<dots> = (if (p, d) \<in> set ks then [mk (p, d)] else [])"
    by (simp add: filter_eq_distinct ks_def)
  finally show ?thesis
    unfolding rows by (simp add: ks_def mk_def round_period_row_def Let_def)
qed

lemma no_chunk_no_hours:
  "(p, d) \<notin> (\<lambda>c. (period (Start c), Developer c)) ` set cs \<Longrightarrow>
     filter (\<lambda>c. period (Start c) = p \<and> Developer c = d) cs = []"
  by (auto simp: filter_empty_conv)

lemma day_cell:
  "cell (pivot_table id (pivot_by_day cs)) p d =
     round2 (sum_list (map Duration_hours (filter (\<lambda>c. date (Start c) = p \<and> Developer c = d) cs)))"
proof -
  have "sum_list (map period_hours (filter (\<lambda>r. group_key r = p \<and> developer r = d) (pivot_by_day cs)))
      = sum_list (map period_hours (filter (\<lambda>r. group_key r = p \<and> developer r = d)
            (map round_period_row (groupby_period date cs))))"
    unfolding pivot_by_day_def filter_sort
    by (rule sum_list_sort_key)
  also have "\<dots> = round2 (sum_list (map Duration_hours (filter (\<lambda>c. date (Start c) = p \<and> Developer c = d) cs)))"
    unfolding day_rows_at by (simp add: no_chunk_no_hours round2_0)
  finally show ?thesis by (simp add: pivot_table_def round2_idem)
qed

lemma day_columns: "columns (pivot_table id (pivot_by_day cs)) = sort (remdups (map Developer cs))"
proof -
  have "set (map developer (pivot_by_day cs)) = set (map Developer cs)"
    unfolding pivot_by_day_def using period_rows_developers[of date cs] by (simp add: image_image)
  from sort_remdups_cong[OF this] show ?thesis by (simp add: pivot_table_def)
qed

lemma day_index: "index (pivot_table id (pivot_by_day cs)) = sort (remdups (map (\<lambda>c. date (Start c)) cs))"
proof -
  have "set (map (\<lambda>r. id (group_key r)) (pivot_by_day cs)) = set (map (\<lambda>c. date (Start c)) cs)"
    unfolding pivot_by_day_def using period_rows_keys[of id date cs] by (simp add: image_image)
  from sort_remdups_cong[OF this] show ?thesis by (simp add: pivot_table_def)
qed

lemma week_columns: "columns (pivot_table snd (pivot_by_week week cs)) = sort (remdups (map Developer cs))"
proof -
  have "set (map developer (pivot_by_week week cs)) = set (map Developer cs)"
    unfolding pivot_by_week_def using period_rows_developers[of "\<lambda>t. (week t, week_start t)" cs] by (simp add: image_image)
  from sort_remdups_cong[OF this] show ?thesis by (simp add: pivot_table_def)
qed

lemma week_index:
  "index (pivot_table snd (pivot_by_week week cs)) = sort (remdups (map (\<lambda>c. week_start (Start c)) cs))"
proof -
  have "set (map (\<lambda>r. snd (group_key r)) (pivot_by_week week cs)) = set (map (\<lambda>c. week_start (Start c)) cs)"
    unfolding pivot_by_week_def using period_rows_keys[of snd "\<lambda>t. (week t, week_start t)" cs] by (simp add: image_image)
  from sort_remdups_cong[OF this] show ?thesis by (simp add: pivot_table_def)
qed

text \<open>
  Claim C3, as amended. Hours are rounded at every table, not once. With \<open>S p d\<close> the
  full-precision sum of the hours of developer \<open>d\<close>'s chunks that start on day \<open>p\<close>:
  \<^item> each summary row, each row of the day table and each row of the week table is a
    full-precision sum over chunks, rounded once;
  \<^item> a cell of the day pivot is \<open>round2 (S p d)\<close> (its second rounding changes nothing);
    a cell of the week pivot is the rounded sum of the already rounded rows of the week
    table that share its \<^verbatim>\<open>Week_Start\<close> and developer;
  \<^item> the total column of either pivot is the rounded sum of the already rounded cells
    of the row, and the total row is the rounded sum of the already rounded entries of
    the column, the total column included.
  The counterexample below has two developers with 20 seconds each on one day: the day's
  total is 0.02, while the full-precision sum of the day rounds to 0.01.
\<close>

theorem rounding_at_every_table:
  "let S = (\<lambda>p d. sum_list (map Duration_hours
                (filter (\<lambda>c. date (Start c) = p \<and> Developer c = d) cs)));
       W = (\<lambda>p d. round2 (sum_list (map period_hours
                (filter (\<lambda>r. snd (group_key r) = p \<and> developer r = d) (pivot_by_week week cs)))));
       developers = sort (remdups (map Developer cs))
   in (\<forall>r \<in> set (map round_row (groupby_Developer cs)).
         Duration_hours_sum r = round2 (dev_hours cs (Developer_key r))) \<and>
      (\<forall>r \<in> set (pivot_by_day cs). period_hours r = round2 (S (group_key r) (developer r))) \<and>
      (\<forall>r \<in> set (pivot_by_week week cs).
         period_hours r = round2 (sum_list (map Duration_hours
           (filter (\<lambda>c. (week (Start c), week_start (Start c)) = group_key r
                        \<and> Developer c = developer r) cs)))) \<and>
      (\<forall>p d. d \<noteq> ''TOTAL'' \<longrightarrow> cell (pivot_table_day cs) (Key p) d = round2 (S p d)) \<and>
      (\<forall>p. cell (pivot_table_day cs) (Key p) ''TOTAL'' = round2 (\<Sum>d\<leftarrow>developers. round2 (S p d))) \<and>
      (\<forall>c. cell (pivot_table_day cs) TOTAL c =
         round2 (\<Sum>p\<leftarrow>sort (remdups (map (\<lambda>c. date (Start c)) cs)).
                   cell (pivot_table_day cs) (Key p) c)) \<and>
      (\<forall>p d. d \<noteq> ''TOTAL'' \<longrightarrow> cell (pivot_table_week week cs) (Key p) d = W p d) \<and>
      (\<forall>p. cell (pivot_table_week week cs) (Key p) ''TOTAL'' = round2 (\<Sum>d\<leftarrow>developers. W p d)) \<and>
      (\<forall>c. cell (pivot_table_week week cs) TOTAL c =
         round2 (\<Sum>p\<leftarrow>sort (remdups (map (\<lambda>c. week_start (Start c)) cs)).
                   cell (pivot_table_week week cs) (Key p) c))"
proof -
  have a: "\<forall>r \<in> set (map round_row (groupby_Developer cs)).
         Duration_hours_sum r = round2 (dev_hours cs (Developer_key r))"
    using summary_rows_rounded_once by blast
  have b: "\<forall>r \<in> set (pivot_by_day cs). period_hours r = round2 (sum_list (map Duration_hours
                (filter (\<lambda>c. date (Start c) = group_key r \<and> Developer c = developer r) cs)))"
    using period_rows_rounded_once[of _ date cs] by (simp add: pivot_by_day_def)
  have c: "\<forall>r \<in> set (pivot_by_week week cs).
         period_hours r = round2 (sum_list (map Duration_hours
           (filter (\<lambda>c. (week (Start c), week_start (Start c)) = group_key r
                        \<and> Developer c = developer r) cs)))"
    using period_rows_rounded_once[of _ "\<lambda>t. (week t, week_start t)" cs]
    unfolding pivot_by_week_def by blast
  have d: "cell (pivot_table_day cs) (Key p) d = round2 (sum_list (map Duration_hours
                (filter (\<lambda>c. date (Start c) = p \<and> Developer c = d) cs)))" if "d \<noteq> ''TOTAL''" for p d
    unfolding pivot_table_day_def pivot_cells_key[OF that] by (rule day_cell)
  have e: "cell (pivot_table_day cs) (Key p) ''TOTAL'' =
      round2 (\<Sum>d\<leftarrow>sort (remdups (map Developer cs)). round2 (sum_list (map Duration_hours
                (filter (\<lambda>c. date (Start c) = p \<and> Developer c = d) cs))))" for p
  proof -
    have "cell (pivot_table id (pivot_by_day cs)) p = (\<lambda>d. round2 (sum_list (map Duration_hours
                (filter (\<lambda>c. date (Start c) = p \<and> Developer c = d) cs))))"
      by (rule ext) (rule day_cell)
    then show ?thesis
      unfolding pivot_table_day_def pivot_total_column day_columns by (simp only:)
  qed
  have f: "cell (pivot_table_day cs) TOTAL c =
         round2 (\<Sum>p\<leftarrow>sort (remdups (map (\<lambda>c. date (Start c)) cs)).
                   cell (pivot_table_day cs) (Key p) c)" for c
    unfolding pivot_table_day_def by (subst pivot_total_row) (simp only: day_index)
  have g: "cell (pivot_table_week week cs) (Key p) d = round2 (sum_list (map period_hours
                (filter (\<lambda>r. snd (group_key r) = p \<and> developer r = d) (pivot_by_week week cs))))"
    if "d \<noteq> ''TOTAL''" for p d
    unfolding pivot_table_week_def pivot_cells_key[OF that] by (simp add: pivot_table_def)
  have h: "cell (pivot_table_week week cs) (Key p) ''TOTAL'' =
      round2 (\<Sum>d\<leftarrow>sort (remdups (map Developer cs)). round2 (sum_list (map period_hours
                (filter (\<lambda>r. snd (group_key r) = p \<and> developer r = d) (pivot_by_week week cs)))))" for p
    unfolding pivot_table_week_def pivot_total_column week_columns by (simp add: pivot_table_def)
  have i: "cell (pivot_table_week week cs) TOTAL c =
         round2 (\<Sum>p\<leftarrow>sort (remdups (map (\<lambda>c. week_start (Start c)) cs)).
                   cell (pivot_table_week week cs) (Key p) c)" for c
    unfolding pivot_table_week_def by (subst pivot_total_row) (simp only: week_index)
  show ?thesis unfolding Let_def
    using a b c d e f g h i by blast
qed

theorem pivot_total_sums_rounded_cells_counterexample:
  "cell (pivot_table_day (frame_rows (process_work_chunks
      [\<lparr>User = Some ''a'', DateTime = 0, source_file = ''f''\<rparr>,
       \<lparr>User = Some ''a'', DateTime = 20, source_file = ''f''\<rparr>,
       \<lparr>User = Some ''b'', DateTime = 0, source_file = ''f''\<rparr>,
       \<lparr>User = Some ''b'', DateTime = 20, source_file = ''f''\<rparr>] 30))) (Key 0) ''TOTAL'' = 1 / 50
   \<and> round2 (sum_list (map Duration_hours (filter (\<lambda>c. date (Start c) = 0) (frame_rows (process_work_chunks
      [\<lparr>User = Some ''a'', DateTime = 0, source_file = ''f''\<rparr>,
       \<lparr>User = Some ''a'', DateTime = 20, source_file = ''f''\<rparr>,
       \<lparr>User = Some ''b'', DateTime = 0, source_file = ''f''\<rparr>,
       \<lparr>User = Some ''b'', DateTime = 20, source_file = ''f''\<rparr>] 30))))) = 1 / 100"
  by code_simp

theorem rounding_at_every_table_witness:
  "''a'' \<noteq> ''TOTAL'' \<and>
   cell (pivot_table_day [make_chunk ''a'' 0 20 2 None, make_chunk ''b'' 0 20 2 None]) (Key 0) ''a'' = 1 / 100 \<and>
   cell (pivot_table_day [make_chunk ''a'' 0 20 2 None, make_chunk ''b'' 0 20 2 None]) (Key 0) ''TOTAL'' = 1 / 50 \<and>
   cell (pivot_table_day [make_chunk ''a'' 0 20 2 None, make_chunk ''b'' 0 20 2 None]) TOTAL ''TOTAL'' = 1 / 50 \<and>
   cell (pivot_table_week (\<lambda>t. ''1970-W00'') [make_chunk ''a'' 0 20 2 None, make_chunk ''b'' 0 20 2 None])
     (Key (- 3)) ''TOTAL'' = 1 / 50"
proof -
  let ?cs = "[make_chunk ''a'' 0 20 2 None, make_chunk ''b'' 0 20 2 None]"
  let ?week = "\<lambda>t::int. ''1970-W00''"
  note t = rounding_at_every_table[of ?cs ?week, unfolded Let_def]
  have n: "''a'' \<noteq> ''TOTAL''" by simp
  have e1: "round2 (sum_list (map Duration_hours
        (filter (\<lambda>c. date (Start c) = 0 \<and> Developer c = ''a'') ?cs))) = 1 / 100"
    by code_simp
  have e2: "round2 (\<Sum>d\<leftarrow>sort (remdups (map Developer ?cs)). round2 (sum_list (map Duration_hours
        (filter (\<lambda>c. date (Start c) = 0 \<and> Developer c = d) ?cs)))) = 1 / 50"
    by code_simp
  have e3: "sort (remdups (map (\<lambda>c. date (Start c)) ?cs)) = [0]"
    by code_simp
  have e4: "round2 (\<Sum>d\<leftarrow>sort (remdups (map Developer ?cs)). round2 (sum_list (map period_hours
        (filter (\<lambda>r. snd (group_key r) = - 3 \<and> developer r = d) (pivot_by_week ?week ?cs))))) = 1 / 50"
    by code_simp
  note d = t[THEN conjunct2, THEN conjunct2, THEN conjunct2, THEN conjunct1, rule_format]
  note e = t[THEN conjunct2, THEN conjunct2, THEN conjunct2, THEN conjunct2, THEN conjunct1, rule_format]
  note f = t[THEN conjunct2, THEN conjunct2, THEN conjunct2, THEN conjunct2, THEN conjunct2,
             THEN conjunct1, rule_format]
  note h = t[THEN conjunct2, THEN conjunct2, THEN conjunct2, THEN conjunct2, THEN conjunct2,
             THEN conjunct2, THEN conjunct2, THEN conjunct1, rule_format]
  have c1: "cell (pivot_table_day ?cs) (Key 0) ''a'' = 1 / 100"
    using d[OF n, of 0] e1 by (simp only:)
  have c2: "cell (pivot_table_day ?cs) (Key 0) ''TOTAL'' = 1 / 50"
    using e[of 0] e2 by (simp only:)
  have c3: "cell (pivot_table_day ?cs) TOTAL ''TOTAL'' = round2 (1 / 50)"
    using f[of "''TOTAL''"] unfolding e3 by (simp add: c2)
  have r: "round2 (1 / 50) = 1 / 50" by code_simp
  have c4: "cell (pivot_table_week ?week ?cs) (Key (- 3)) ''TOTAL'' = 1 / 50"
    using h[of "- 3"] e4 by (simp only:)
  from n c1 c2 c3 c4 r show ?thesis by simp
qed

end
